theory Spec2Isabelle
  imports Main "HOL-Library.Multiset"
begin

section \<open>Data model of \<^verbatim>\<open>protect_secrets.py\<close>\<close>

text \<open>
  An exception value stands for an instance of Python's \<^verbatim>\<open>Exception\<close> class, the
  class both handlers of the module name (\<^verbatim>\<open>except Exception as e\<close>); it carries
  what \<^verbatim>\<open>str(e)\<close> prints.
\<close>

datatype exn = Exception string

fun exn_str :: "exn \<Rightarrow> string" where
  "exn_str (Exception msg) = msg"

text \<open>
  A CSV row is a \<^verbatim>\<open>Dict[str, str]\<close>. \<^verbatim>\<open>record.get(field)\<close> is \<open>None\<close> for a key
  that is absent (or that \<^verbatim>\<open>csv.DictReader\<close> filled with \<^verbatim>\<open>None\<close> on a short row).
\<close>

type_synonym csv_record = "string \<rightharpoonup> string"

text \<open>
  Modelled from the spec: the class \<^verbatim>\<open>SecretSubmission\<close> of the module
  \<^verbatim>\<open>sv_secret_submitter\<close>, which is imported but not part of the sources. The spec
  describes it as a plain projection with the fields \<^verbatim>\<open>name\<close>, \<^verbatim>\<open>type\<close>, \<^verbatim>\<open>tag\<close>,
  \<^verbatim>\<open>text\<close> and \<^verbatim>\<open>keepic_path\<close>.
\<close>

record secret_submission =
  name :: string
  type :: string
  tag :: string
  text' :: string
  keepic_path :: string

text \<open>
  Everything a run does to the outside: lines given to \<^verbatim>\<open>logger\<close>, and the calls on
  \<^verbatim>\<open>SecretVaultSubmitter\<close> (constructor with its \<^verbatim>\<open>stage\<close> and \<^verbatim>\<open>headless\<close>
  arguments, \<^verbatim>\<open>authenticate\<close>, \<^verbatim>\<open>submit_secret\<close>, and the exit of the \<^verbatim>\<open>with\<close> block).
\<close>

datatype event =
    LogError string
  | LogInfo string
  | NewSubmitter string bool
  | Authenticate string string
  | SubmitSecret secret_submission
  | ExitSubmitter

fun is_adapter_event :: "event \<Rightarrow> bool" where
  "is_adapter_event (LogError _) = False"
| "is_adapter_event (LogInfo _) = False"
| "is_adapter_event _ = True"

text \<open>
  The collaborators the module only calls: \<^verbatim>\<open>Path(p).exists()\<close>, the submitter
  (constructor together with \<^verbatim>\<open>__enter__\<close>, the two methods, and \<^verbatim>\<open>__exit__\<close>, which
  is given the exception in flight and does not swallow it), reading the CSV file
  (\<^verbatim>\<open>open\<close>, \<^verbatim>\<open>csv.DictReader\<close>, \<^verbatim>\<open>list\<close>) and opening a file for writing.
  Each of them may raise. \<open>is_file\<close> is \<^verbatim>\<open>Path(p).is_file()\<close>, whether the path leads
  to a regular file: the module never asks for it, \<^verbatim>\<open>exists()\<close> is also true of a
  directory.
\<close>

record env =
  path_exists :: "string \<Rightarrow> exn + bool"
  is_file :: "string \<Rightarrow> bool"
  submitter_init :: "string \<Rightarrow> bool \<Rightarrow> exn option"
  authenticate :: "string \<Rightarrow> string \<Rightarrow> string \<Rightarrow> exn + bool"
  submit_secret :: "string \<Rightarrow> string \<Rightarrow> secret_submission \<Rightarrow> exn + bool"
  submitter_exit :: "string \<Rightarrow> exn option \<Rightarrow> exn option"
  read_csv :: "string \<Rightarrow> exn + csv_record list"
  open_w :: "string \<Rightarrow> exn option"

subsection \<open>Computations that log, call out and may raise\<close>

type_synonym 'a comp = "(exn + 'a) \<times> event list"

definition ret :: "'a \<Rightarrow> 'a comp" where
  "ret x = (Inr x, [])"

definition raise_exn :: "exn \<Rightarrow> 'a comp" where
  "raise_exn e = (Inl e, [])"

definition emit :: "event \<Rightarrow> unit comp" where
  "emit ev = (Inr (), [ev])"

definition call :: "exn + 'a \<Rightarrow> 'a comp" where
  "call r = (r, [])"

definition comp_bind :: "'a comp \<Rightarrow> ('a \<Rightarrow> 'b comp) \<Rightarrow> 'b comp" where
  "comp_bind m f =
     (case m of
        (Inl e, tr) \<Rightarrow> (Inl e, tr)
      | (Inr x, tr) \<Rightarrow> (case f x of (r, tr') \<Rightarrow> (r, tr @ tr')))"

text \<open>\<^verbatim>\<open>record[key]\<close>: raises \<^verbatim>\<open>KeyError\<close> on an absent key.\<close>

definition getitem :: "csv_record \<Rightarrow> string \<Rightarrow> string comp" where
  "getitem record key =
     (case record key of
        None \<Rightarrow> raise_exn (Exception ([CHR 0x27] @ key @ [CHR 0x27]))
      | Some v \<Rightarrow> ret v)"

section \<open>Record validation and submission\<close>

definition validate_file_path :: "env \<Rightarrow> string \<Rightarrow> bool comp" where
  "validate_file_path env file_path =
     comp_bind (call (path_exists env file_path)) (\<lambda>exists.
       if \<not> exists then
         comp_bind (emit (LogError (''File not found: '' @ file_path))) (\<lambda>_. ret False)
       else ret True)"

definition required_fields :: "string list" where
  "required_fields =
     [''username'', ''password'', ''secret_type'', ''secret'', ''secret_desc'', ''keepic'']"

text \<open>\<^verbatim>\<open>not record.get(field)\<close>: the field is absent or the empty string.\<close>

fun falsy :: "string option \<Rightarrow> bool" where
  "falsy None = True"
| "falsy (Some v) = (v = [])"

text \<open>The loop over \<^verbatim>\<open>required_fields\<close>: the first field that is missing, if any.\<close>

fun missing_field :: "csv_record \<Rightarrow> string list \<Rightarrow> string option" where
  "missing_field record [] = None"
| "missing_field record (field # rest) =
     (if falsy (record field) then Some field else missing_field record rest)"

definition make_submission :: "csv_record \<Rightarrow> secret_submission comp" where
  "make_submission record =
     comp_bind (getitem record ''secret_desc'') (\<lambda>secret_desc.
     comp_bind (getitem record ''secret_type'') (\<lambda>secret_type.
     comp_bind (if secret_type = ''text'' then getitem record ''secret'' else ret '''') (\<lambda>txt.
     comp_bind (getitem record ''keepic'') (\<lambda>keepic.
       ret \<lparr>name = secret_desc, type = secret_type, tag = '''', text' = txt,
            keepic_path = keepic\<rparr>))))"

text \<open>
  \<^verbatim>\<open>with SecretVaultSubmitter(stage=stage, headless=...) as submitter: body\<close>. The
  body is left by a return or by an exception; either way \<^verbatim>\<open>__exit__\<close> runs, and an
  exception of its own replaces the outcome of the body.
\<close>

definition with_submitter :: "env \<Rightarrow> string \<Rightarrow> bool \<Rightarrow> 'a comp \<Rightarrow> 'a comp" where
  "with_submitter env stage headless body =
     comp_bind (emit (NewSubmitter stage headless)) (\<lambda>_.
     comp_bind (call (case submitter_init env stage headless of
                        Some e \<Rightarrow> Inl e | None \<Rightarrow> Inr ())) (\<lambda>_.
       (case body of (r, tr) \<Rightarrow>
          (case submitter_exit env stage (case r of Inl e \<Rightarrow> Some e | Inr _ \<Rightarrow> None) of
             Some e' \<Rightarrow> (Inl e', tr @ [ExitSubmitter])
           | None \<Rightarrow> (r, tr @ [ExitSubmitter])))))"

text \<open>The statements inside \<^verbatim>\<open>try:\<close> of \<^verbatim>\<open>process_csv_record\<close>.\<close>

definition submit_body :: "env \<Rightarrow> csv_record \<Rightarrow> string \<Rightarrow> secret_submission \<Rightarrow> bool comp" where
  "submit_body env record stage secret =
     comp_bind (getitem record ''username'') (\<lambda>username.
     comp_bind (emit (LogInfo (''Attempting to protect secret for user: '' @ username))) (\<lambda>_.
     comp_bind (getitem record ''password'') (\<lambda>password.
     comp_bind (emit (Authenticate username password)) (\<lambda>_.
     comp_bind (call (authenticate env stage username password)) (\<lambda>authenticated.
       if \<not> authenticated then
         comp_bind (emit (LogError (''Authentication failed for user: '' @ username)))
           (\<lambda>_. ret False)
       else
         comp_bind (emit (SubmitSecret secret)) (\<lambda>_.
         comp_bind (call (submit_secret env stage username secret)) (\<lambda>submitted.
           if submitted then
             comp_bind (emit (LogInfo (''Successfully protected secret for user: '' @ username)))
               (\<lambda>_. ret True)
           else
             comp_bind (emit (LogError (''Failed to protect secret for user: '' @ username)))
               (\<lambda>_. ret False))))))))"

definition process_csv_record_try :: "env \<Rightarrow> csv_record \<Rightarrow> string \<Rightarrow> bool comp" where
  "process_csv_record_try env record stage =
     (case missing_field record required_fields of
        Some field \<Rightarrow>
          comp_bind (emit (LogError (''Missing required field: '' @ field))) (\<lambda>_. ret False)
      | None \<Rightarrow>
          comp_bind (getitem record ''secret_type'') (\<lambda>secret_type.
          comp_bind (if secret_type \<in> set [''file'', ''image'']
                     then comp_bind (getitem record ''secret'') (validate_file_path env)
                     else ret True) (\<lambda>secret_ok.
            if \<not> secret_ok then ret False
            else
              comp_bind (getitem record ''keepic'') (\<lambda>keepic.
              comp_bind (validate_file_path env keepic) (\<lambda>keepic_ok.
                if \<not> keepic_ok then ret False
                else
                  comp_bind (make_submission record) (\<lambda>secret.
                    with_submitter env stage False
                      (submit_body env record stage secret)))))))"

text \<open>
  \<^verbatim>\<open>process_csv_record\<close>: the \<^verbatim>\<open>try\<close> block and its handler, which reads
  \<^verbatim>\<open>record['username']\<close> again for the log line and returns \<^verbatim>\<open>False\<close>. The result is
  \<open>Inl\<close> when an exception leaves the function.
\<close>

definition process_csv_record :: "env \<Rightarrow> csv_record \<Rightarrow> string \<Rightarrow> bool comp" where
  "process_csv_record env record stage =
     (case process_csv_record_try env record stage of
        (Inr b, tr) \<Rightarrow> (Inr b, tr)
      | (Inl e, tr) \<Rightarrow>
          comp_bind (Inr (), tr) (\<lambda>_.
          comp_bind (getitem record ''username'') (\<lambda>username.
          comp_bind (emit (LogError (''Error processing record for user '' @ username
                                      @ '': '' @ exn_str e))) (\<lambda>_. ret False))))"

section \<open>The batch runner\<close>

record results =
  total :: nat
  success :: nat
  failed :: nat

text \<open>\<^verbatim>\<open>str(n)\<close> for a natural number, as the f-strings print it.\<close>

fun str_nat :: "nat \<Rightarrow> string" where
  "str_nat n =
     (if n < 10 then [''0123456789'' ! n]
      else str_nat (n div 10) @ [''0123456789'' ! (n mod 10)])"

declare str_nat.simps [simp del]

definition progress_line :: "nat \<Rightarrow> results \<Rightarrow> string" where
  "progress_line completed results =
     ''Progress: '' @ str_nat completed @ ''/'' @ str_nat (total results)
     @ '' (Success: '' @ str_nat (success results)
     @ '', Failed: '' @ str_nat (failed results) @ '')''"

text \<open>
  \<^verbatim>\<open>asyncio.as_completed(tasks)\<close> hands the tasks over in the order in which they
  finish, which the event loop decides. The list \<open>choices\<close> stands for its decisions:
  each number picks the next task among those still to come.
\<close>

fun as_completed :: "nat list \<Rightarrow> 'a list \<Rightarrow> 'a list" where
  "as_completed choices [] = []"
| "as_completed [] tasks = tasks"
| "as_completed (c # choices) tasks =
     (let i = c mod length tasks
      in tasks ! i # as_completed choices (take i tasks @ drop (Suc i) tasks))"

text \<open>
  The counter of \<^verbatim>\<open>asyncio.Semaphore\<close>: \<^verbatim>\<open>acquire\<close> takes a permit when the counter
  is positive and otherwise makes the task wait for a release (\<open>None\<close>);
  \<^verbatim>\<open>release\<close> gives the permit back.
\<close>

definition acquire :: "nat \<Rightarrow> nat option" where
  "acquire semaphore = (if semaphore = 0 then None else Some (semaphore - 1))"

definition release :: "nat \<Rightarrow> nat" where
  "release semaphore = semaphore + 1"

text \<open>
  \<^verbatim>\<open>async with semaphore:\<close> around the body of \<^verbatim>\<open>process_csv_record\<close>. The body
  has no \<^verbatim>\<open>await\<close>, so a task that got a permit runs to its end and gives the permit
  back before the next task is resumed. A task that finds no permit waits for a
  release; with none held by anybody that is for ever (\<open>None\<close>).
\<close>

fun run_tasks :: "env \<Rightarrow> string \<Rightarrow> nat \<Rightarrow> csv_record list \<Rightarrow> bool comp list option" where
  "run_tasks env stage semaphore [] = Some []"
| "run_tasks env stage semaphore (record # rest) =
     (case acquire semaphore of
        None \<Rightarrow> None
      | Some held \<Rightarrow>
          (let run = process_csv_record env record stage
           in case run_tasks env stage (release held) rest of
                None \<Rightarrow> None
              | Some runs \<Rightarrow> Some (run # runs)))"

text \<open>
  The same run as it happens in time: what each task does, in order, with the number
  of the task. A task takes its permit, does what \<^verbatim>\<open>process_csv_record\<close> does for its
  record, and gives the permit back on leaving the block.
\<close>

datatype tick = Acquired | Did event | Released

fun timeline :: "env \<Rightarrow> string \<Rightarrow> nat \<Rightarrow> nat \<Rightarrow> csv_record list
    \<Rightarrow> (nat \<times> tick) list option" where
  "timeline env stage semaphore i [] = Some []"
| "timeline env stage semaphore i (record # rest) =
     (case acquire semaphore of
        None \<Rightarrow> None
      | Some held \<Rightarrow>
          (let run = process_csv_record env record stage
           in case timeline env stage (release held) (Suc i) rest of
                None \<Rightarrow> None
              | Some later \<Rightarrow>
                  Some ((i, Acquired) # map (\<lambda>ev. (i, Did ev)) (snd run)
                        @ (i, Released) # later)))"

text \<open>
  Who is where at a moment of the run: the tasks inside \<^verbatim>\<open>async with semaphore\<close>, and
  those among them that have called \<^verbatim>\<open>submitter.authenticate\<close>.
\<close>

fun is_authenticate :: "event \<Rightarrow> bool" where
  "is_authenticate (Authenticate _ _) = True"
| "is_authenticate _ = False"

fun after_tick :: "nat list \<times> nat list \<Rightarrow> nat \<times> tick \<Rightarrow> nat list \<times> nat list" where
  "after_tick (inside, past) (i, Acquired) = (i # inside, past)"
| "after_tick (inside, past) (i, Did ev) =
     (inside, if is_authenticate ev \<and> i \<notin> set past then i # past else past)"
| "after_tick (inside, past) (i, Released) = (removeAll i inside, removeAll i past)"

fun moments :: "nat list \<times> nat list \<Rightarrow> (nat \<times> tick) list \<Rightarrow> (nat list \<times> nat list) list" where
  "moments m [] = [m]"
| "moments m (t # ts) = m # moments (after_tick m t) ts"

text \<open>
  The loop \<^verbatim>\<open>for result in asyncio.as_completed(tasks)\<close>: \<^verbatim>\<open>await result\<close> gives
  the task's value or raises what the task raised.
\<close>

fun consume :: "(exn + bool) list \<Rightarrow> nat \<Rightarrow> results \<Rightarrow> event list
    \<Rightarrow> exn option \<times> results \<times> event list" where
  "consume [] completed results logged = (None, results, logged)"
| "consume (result # rest) completed results logged =
     (case result of
        Inl e \<Rightarrow> (Some e, results, logged)
      | Inr ok \<Rightarrow>
          (let results' = (if ok then results\<lparr>success := success results + 1\<rparr>
                           else results\<lparr>failed := failed results + 1\<rparr>)
           in consume rest (completed + 1) results'
                (logged @ [LogInfo (progress_line (completed + 1) results')])))"

record batch_run =
  counters :: results
  batch_log :: "event list"
  task_traces :: "event list list"

datatype try_result = Completed | Failed exn | Blocked

text \<open>The statements inside \<^verbatim>\<open>try:\<close> of \<^verbatim>\<open>process_secrets_file\<close>.\<close>

definition process_secrets_file_try ::
    "env \<Rightarrow> string \<Rightarrow> int \<Rightarrow> string \<Rightarrow> nat list \<Rightarrow> results \<Rightarrow> try_result \<times> batch_run" where
  "process_secrets_file_try env csv_file max_concurrent stage choices results =
     (case read_csv env csv_file of
        Inl e \<Rightarrow> (Failed e, \<lparr>counters = results, batch_log = [], task_traces = []\<rparr>)
      | Inr records \<Rightarrow>
          (let results = results\<lparr>total := length records\<rparr> in
           if max_concurrent < 0 then
             (Failed (Exception ''Semaphore initial value must be >= 0''),
              \<lparr>counters = results, batch_log = [], task_traces = []\<rparr>)
           else
             (case run_tasks env stage (nat max_concurrent) (as_completed choices records) of
                None \<Rightarrow> (Blocked, \<lparr>counters = results, batch_log = [], task_traces = []\<rparr>)
              | Some runs \<Rightarrow>
                  (case consume (map fst runs) 0 results [] of
                     (err, results, logged) \<Rightarrow>
                       (case err of None \<Rightarrow> Completed | Some e \<Rightarrow> Failed e,
                        \<lparr>counters = results, batch_log = logged,
                         task_traces = map snd runs\<rparr>)))))"

datatype 'a outcome = Returned 'a | Raised exn | Hangs

definition process_secrets_file ::
    "env \<Rightarrow> string \<Rightarrow> int \<Rightarrow> string \<Rightarrow> nat list \<Rightarrow> batch_run outcome" where
  "process_secrets_file env csv_file max_concurrent stage choices =
     (case process_secrets_file_try env csv_file max_concurrent stage choices
             \<lparr>total = 0, success = 0, failed = 0\<rparr> of
        (Completed, run) \<Rightarrow> Returned run
      | (Failed e, run) \<Rightarrow>
          Returned (run\<lparr>batch_log := batch_log run
                         @ [LogError (''Error processing CSV file: '' @ exn_str e)]\<rparr>)
      | (Blocked, run) \<Rightarrow> Hangs)"

section \<open>The sample generator\<close>









section \<open>Concrete inputs\<close>

definition demo_env :: env where
  "demo_env =
     \<lparr>path_exists = (\<lambda>p. Inr (p = ''./keepic.jpg'' \<or> p = ''.'')),
      is_file = (\<lambda>p. p = ''./keepic.jpg''),
      submitter_init = (\<lambda>stage headless. None),
      authenticate = (\<lambda>stage username password. Inr (password \<noteq> ''wrong'')),
      submit_secret = (\<lambda>stage username secret.
         if type secret = ''text'' then Inr True else Inl (Exception ''upload failed'')),
      submitter_exit = (\<lambda>stage e. None),
      read_csv = (\<lambda>p. Inl (Exception ''No such file'')),
      open_w = (\<lambda>p. if p = ''.'' then Some (Exception ''Is a directory'') else None)\<rparr>"

definition demo_record :: "string \<Rightarrow> string \<Rightarrow> csv_record" where
  "demo_record secret_type keepic =
     [''username'' \<mapsto> ''user1'', ''password'' \<mapsto> ''password1'',
      ''secret_type'' \<mapsto> secret_type, ''secret'' \<mapsto> ''This is secret #1'',
      ''secret_desc'' \<mapsto> ''Sample Secret 1'', ''keepic'' \<mapsto> keepic]"

definition demo_batch_env :: "csv_record list \<Rightarrow> env" where
  "demo_batch_env records = demo_env\<lparr>read_csv := (\<lambda>p. Inr records)\<rparr>"

section \<open>Properties of record processing\<close>

lemma missing_field_None:
  "missing_field record fs = None \<longleftrightarrow> (\<forall>f \<in> set fs. \<not> falsy (record f))"
  by (induction fs) auto

lemma not_falsy: "\<not> falsy v \<longleftrightarrow> (\<exists>s. v = Some s \<and> s \<noteq> [])"
  by (cases v) auto

lemma required_present:
  assumes "missing_field record required_fields = None"
  obtains username password secret_type secret secret_desc keepic where
    "record ''username'' = Some username" "username \<noteq> []"
    "record ''password'' = Some password" "password \<noteq> []"
    "record ''secret_type'' = Some secret_type" "secret_type \<noteq> []"
    "record ''secret'' = Some secret" "secret \<noteq> []"
    "record ''secret_desc'' = Some secret_desc" "secret_desc \<noteq> []"
    "record ''keepic'' = Some keepic" "keepic \<noteq> []"
  using assms unfolding missing_field_None required_fields_def
  by (auto simp: not_falsy)

lemma comp_bind_Inr: "comp_bind (Inr x, tr) f = (fst (f x), tr @ snd (f x))"
  by (simp add: comp_bind_def split: prod.splits)

lemma comp_bind_Inl: "comp_bind (Inl e, tr) f = (Inl e, tr)"
  by (simp add: comp_bind_def)

lemma comp_bind_ret: "comp_bind (ret x) f = f x"
  by (simp add: comp_bind_def ret_def split: prod.splits)

lemma comp_bind_raise: "comp_bind (raise_exn e) f = raise_exn e"
  by (simp add: comp_bind_def raise_exn_def)

lemma comp_bind_emit: "comp_bind (emit ev) f = (fst (f ()), ev # snd (f ()))"
  by (simp add: comp_bind_def emit_def split: prod.splits)

lemma comp_bind_call_Inr: "comp_bind (call (Inr x)) f = f x"
  by (simp add: comp_bind_def call_def split: prod.splits)

lemma comp_bind_call_Inl: "comp_bind (call (Inl e)) f = (Inl e, [])"
  by (simp add: comp_bind_def call_def)

lemma getitem_Some: "record key = Some v \<Longrightarrow> getitem record key = ret v"
  by (simp add: getitem_def)

lemmas comp_simps = comp_bind_Inr comp_bind_Inl comp_bind_ret comp_bind_raise comp_bind_emit comp_bind_call_Inr
  comp_bind_call_Inl

lemma missing_field_fails:
  "missing_field record required_fields = Some f \<Longrightarrow>
   process_csv_record env record stage = (Inr False, [LogError (''Missing required field: '' @ f)])"
  by (simp add: process_csv_record_def process_csv_record_try_def comp_simps ret_def)

lemma validate_file_path_cases:
  "validate_file_path env p =
     (case path_exists env p of
        Inl e \<Rightarrow> (Inl e, [])
      | Inr b \<Rightarrow> if b then (Inr True, []) else (Inr False, [LogError (''File not found: '' @ p)]))"
  by (simp add: validate_file_path_def comp_simps ret_def split: sum.splits)

lemma make_submission_valid:
  assumes "record ''secret_type'' = Some secret_type" "record ''secret'' = Some secret"
    "record ''secret_desc'' = Some secret_desc" "record ''keepic'' = Some keepic"
  shows "make_submission record =
     ret \<lparr>name = secret_desc, type = secret_type, tag = '''',
          text' = (if secret_type = ''text'' then secret else ''''), keepic_path = keepic\<rparr>"
  using assms by (simp add: make_submission_def getitem_Some comp_simps)

lemma submit_body_valid:
  assumes "record ''username'' = Some username" "record ''password'' = Some password"
  shows "submit_body env record stage secret =
     (case authenticate env stage username password of
        Inl e \<Rightarrow> (Inl e, [LogInfo (''Attempting to protect secret for user: '' @ username),
                          Authenticate username password])
      | Inr authenticated \<Rightarrow>
          if \<not> authenticated then
            (Inr False, [LogInfo (''Attempting to protect secret for user: '' @ username),
                         Authenticate username password,
                         LogError (''Authentication failed for user: '' @ username)])
          else
            (case submit_secret env stage username secret of
               Inl e \<Rightarrow> (Inl e, [LogInfo (''Attempting to protect secret for user: '' @ username),
                                 Authenticate username password, SubmitSecret secret])
             | Inr submitted \<Rightarrow>
                 if submitted then
                   (Inr True, [LogInfo (''Attempting to protect secret for user: '' @ username),
                               Authenticate username password, SubmitSecret secret,
                               LogInfo (''Successfully protected secret for user: '' @ username)])
                 else
                   (Inr False, [LogInfo (''Attempting to protect secret for user: '' @ username),
                                Authenticate username password, SubmitSecret secret,
                                LogError (''Failed to protect secret for user: '' @ username)])))"
  using assms
  by (simp add: submit_body_def getitem_Some comp_simps ret_def split: sum.splits)

lemma submit_body_events:
  assumes "record ''username'' = Some username" "record ''password'' = Some password"
    and "ev \<in> set (snd (submit_body env record stage secret))"
  shows "ev = SubmitSecret secret \<or> ev = Authenticate username password \<or> \<not> is_adapter_event ev"
  using assms(3) unfolding submit_body_valid [OF assms(1,2)]
  by (auto split: sum.splits if_splits)

lemma with_submitter_events:
  assumes "ev \<in> set (snd (with_submitter env stage headless body))"
  shows "ev = NewSubmitter stage headless \<or> ev = ExitSubmitter \<or> ev \<in> set (snd body)"
  using assms
  by (cases body; cases "submitter_init env stage headless")
     (auto simp: with_submitter_def comp_simps split: option.splits)

lemma try_valid:
  assumes "missing_field record required_fields = None"
    "record ''secret_type'' = Some secret_type" "record ''secret'' = Some secret"
    "record ''secret_desc'' = Some secret_desc" "record ''keepic'' = Some keepic"
  shows "process_csv_record_try env record stage =
     comp_bind (if secret_type = ''file'' \<or> secret_type = ''image''
                then validate_file_path env secret else ret True) (\<lambda>secret_ok.
       if \<not> secret_ok then ret False
       else comp_bind (validate_file_path env keepic) (\<lambda>keepic_ok.
         if \<not> keepic_ok then ret False
         else with_submitter env stage False
                (submit_body env record stage
                   \<lparr>name = secret_desc, type = secret_type, tag = '''',
                    text' = (if secret_type = ''text'' then secret else ''''),
                    keepic_path = keepic\<rparr>)))"
  using assms(1-3,5)
  by (simp add: process_csv_record_try_def getitem_Some comp_simps
      make_submission_valid [OF assms(2-5)] cong: if_cong)

lemma missing_field_found:
  "f \<in> set fs \<Longrightarrow> falsy (record f) \<Longrightarrow> \<exists>g \<in> set fs. missing_field record fs = Some g"
  by (induction fs) auto

lemma comp_bind_events:
  assumes "ev \<in> set (snd (comp_bind m f))"
  shows "ev \<in> set (snd m) \<or> (\<exists>x. fst m = Inr x \<and> ev \<in> set (snd (f x)))"
proof (cases m)
  case (Pair r tr)
  then show ?thesis using assms by (cases r) (auto simp: comp_simps)
qed

lemma validate_file_path_events:
  "ev \<in> set (snd (validate_file_path env p)) \<Longrightarrow> \<not> is_adapter_event ev"
  by (auto simp: validate_file_path_cases split: sum.splits if_splits)

text \<open>The handler adds one log line to what the \<open>try\<close> block did, or nothing.\<close>

lemma process_csv_record_cases:
  assumes "record ''username'' = Some username"
  shows "process_csv_record env record stage =
     (case process_csv_record_try env record stage of
        (Inr b, tr) \<Rightarrow> (Inr b, tr)
      | (Inl e, tr) \<Rightarrow> (Inr False, tr @ [LogError (''Error processing record for user ''
                                              @ username @ '': '' @ exn_str e)]))"
  using assms
  by (simp add: process_csv_record_def getitem_Some comp_simps ret_def
      split: prod.splits sum.splits)

lemma process_csv_record_events:
  assumes "ev \<in> set (snd (process_csv_record env record stage))" "is_adapter_event ev"
  shows "ev \<in> set (snd (process_csv_record_try env record stage))"
proof (cases "missing_field record required_fields")
  case (Some f)
  then show ?thesis using assms by (simp add: missing_field_fails)
next
  case None
  then obtain username where "record ''username'' = Some username"
    by (rule required_present)
  then show ?thesis using assms
    by (auto simp: process_csv_record_cases split: prod.splits sum.splits)
qed

lemma try_events:
  assumes ev: "ev \<in> set (snd (process_csv_record_try env record stage))" "is_adapter_event ev"
    and f: "record ''username'' = Some username" "record ''password'' = Some password"
    "record ''secret_type'' = Some secret_type" "record ''secret'' = Some secret"
    "record ''secret_desc'' = Some secret_desc" "record ''keepic'' = Some keepic"
  shows "ev \<in> {NewSubmitter stage False, ExitSubmitter, Authenticate username password,
               SubmitSecret \<lparr>name = secret_desc, type = secret_type, tag = '''',
                 text' = (if secret_type = ''text'' then secret else ''''),
                 keepic_path = keepic\<rparr>}"
proof (cases "missing_field record required_fields")
  case (Some g)
  then show ?thesis using ev
    by (simp add: process_csv_record_try_def comp_simps ret_def)
next
  case None
  note eq = try_valid [OF None f(3-6), of env stage]
  let ?sub = "\<lparr>name = secret_desc, type = secret_type, tag = '''',
                 text' = (if secret_type = ''text'' then secret else ''''),
                 keepic_path = keepic\<rparr>"
  from ev(1) have "ev \<in> set (snd (with_submitter env stage False
      (submit_body env record stage ?sub)))"
    unfolding eq using ev(2)
    by (auto dest!: comp_bind_events validate_file_path_events
        simp: ret_def split: if_splits)
  then show ?thesis
    using ev(2) submit_body_events [OF f(1,2), of ev env stage ?sub]
    by (auto dest!: with_submitter_events)
qed

lemma try_not_validated:
  assumes "missing_field record required_fields = None"
    and "(record ''secret_type'' \<in> {Some ''file'', Some ''image''} \<and>
            (\<forall>p. record ''secret'' = Some p \<longrightarrow> path_exists env p \<noteq> Inr True))
         \<or> (\<forall>k. record ''keepic'' = Some k \<longrightarrow> path_exists env k \<noteq> Inr True)"
  shows "fst (process_csv_record_try env record stage) \<noteq> Inr True \<and>
         filter is_adapter_event (snd (process_csv_record_try env record stage)) = []"
proof -
  from assms(1) obtain secret_type secret secret_desc keepic where
    f: "record ''secret_type'' = Some secret_type" "record ''secret'' = Some secret"
    "record ''secret_desc'' = Some secret_desc" "record ''keepic'' = Some keepic"
    by (rule required_present)
  note eq = try_valid [OF assms(1) f, of env stage]
  have k: "validate_file_path env keepic =
     (case path_exists env keepic of
        Inl e \<Rightarrow> (Inl e, [])
      | Inr b \<Rightarrow> if b then (Inr True, []) else (Inr False, [LogError (''File not found: '' @ keepic)]))"
    by (rule validate_file_path_cases)
  have s: "validate_file_path env secret =
     (case path_exists env secret of
        Inl e \<Rightarrow> (Inl e, [])
      | Inr b \<Rightarrow> if b then (Inr True, []) else (Inr False, [LogError (''File not found: '' @ secret)]))"
    by (rule validate_file_path_cases)
  show ?thesis
    using assms(2) f unfolding eq k s
    by (cases "path_exists env keepic"; cases "path_exists env secret")
       (auto simp: comp_simps ret_def)
qed

lemmas run_defs = process_csv_record_def process_csv_record_try_def validate_file_path_def
  make_submission_def with_submitter_def submit_body_def required_fields_def getitem_def
  comp_bind_def ret_def raise_exn_def emit_def call_def demo_env_def demo_record_def

lemma try_validated:
  assumes "missing_field record required_fields = None"
    "record ''secret_type'' = Some secret_type" "record ''secret'' = Some secret"
    "record ''secret_desc'' = Some secret_desc" "record ''keepic'' = Some keepic"
    and "secret_type \<in> {''file'', ''image''} \<longrightarrow> path_exists env secret = Inr True"
    and "path_exists env keepic = Inr True"
  shows "process_csv_record_try env record stage =
     with_submitter env stage False
       (submit_body env record stage
          \<lparr>name = secret_desc, type = secret_type, tag = '''',
           text' = (if secret_type = ''text'' then secret else ''''),
           keepic_path = keepic\<rparr>)"
  unfolding try_valid [OF assms(1-5)] using assms(6,7)
  by (auto simp: validate_file_path_cases comp_simps)

lemma with_submitter_starts:
  "\<exists>tr. snd (with_submitter env stage headless body) = NewSubmitter stage headless # tr"
  by (cases body; cases "submitter_init env stage headless")
     (auto simp: with_submitter_def comp_simps split: option.splits)

lemma with_submitter_runs_body:
  "submitter_init env stage headless = None \<Longrightarrow>
   set (snd body) \<subseteq> set (snd (with_submitter env stage headless body))"
  by (cases body)
     (auto simp: with_submitter_def comp_simps split: option.splits)

lemma submit_body_submits:
  assumes "record ''username'' = Some username" "record ''password'' = Some password"
    "authenticate env stage username password = Inr True"
  shows "SubmitSecret secret \<in> set (snd (submit_body env record stage secret))"
  unfolding submit_body_valid [OF assms(1,2)] using assms(3)
  by (auto split: sum.splits)

lemma process_csv_record_keeps_trace:
  "\<exists>tr. snd (process_csv_record env record stage) =
     snd (process_csv_record_try env record stage) @ tr"
  by (cases "process_csv_record_try env record stage"; cases "record ''username''")
     (auto simp: process_csv_record_def comp_simps getitem_def raise_exn_def ret_def
            split: sum.splits)

text \<open>
  Claim C2. When one of the six required fields is absent or empty,
  \<^verbatim>\<open>process_csv_record\<close> returns false, all it does is to log one line naming a missing
  field, and no call on the submitter is made: it is neither constructed nor used.
\<close>

theorem missing_required_field_fails:
  assumes "field \<in> set required_fields" "record field = None \<or> record field = Some ''''"
  shows "fst (process_csv_record env record stage) = Inr False \<and>
         filter is_adapter_event (snd (process_csv_record env record stage)) = [] \<and>
         (\<exists>g \<in> set required_fields.
            snd (process_csv_record env record stage) =
              [LogError (''Missing required field: '' @ g)])"
proof -
  from assms(2) have "falsy (record field)" by auto
  with assms(1) obtain g where "g \<in> set required_fields"
    "missing_field record required_fields = Some g"
    using missing_field_found [of field required_fields "record"] by blast
  then show ?thesis by (simp add: missing_field_fails)
qed

theorem missing_required_field_fails_witness:
  "''password'' \<in> set required_fields \<and>
   process_csv_record demo_env ((demo_record ''text'' ''./keepic.jpg'')(''password'' := None))
     ''dev'' = (Inr False, [LogError ''Missing required field: password''])"
  using missing_required_field_fails [of "''password''"
      "(demo_record ''text'' ''./keepic.jpg'')(''password'' := None)" demo_env "''dev''"]
  by (simp add: run_defs)

text \<open>
  Claim C3, as the code has it. When \<^verbatim>\<open>secret_type\<close> is \<^verbatim>\<open>file\<close> or \<^verbatim>\<open>image\<close> and
  nothing exists at the path in \<^verbatim>\<open>secret\<close>, or when nothing exists at the path in
  \<^verbatim>\<open>keepic\<close> whatever the type, \<^verbatim>\<open>process_csv_record\<close> returns false and makes no call
  on the submitter. Existence is what \<^verbatim>\<open>Path.exists\<close> answers: the check is passed by
  anything that exists at the path, a directory included.
\<close>

theorem missing_file_fails:
  assumes "(record ''secret_type'' \<in> {Some ''file'', Some ''image''} \<and>
            (\<forall>p. record ''secret'' = Some p \<longrightarrow> path_exists env p \<noteq> Inr True))
         \<or> (\<forall>k. record ''keepic'' = Some k \<longrightarrow> path_exists env k \<noteq> Inr True)"
  shows "fst (process_csv_record env record stage) = Inr False \<and>
         filter is_adapter_event (snd (process_csv_record env record stage)) = []"
proof (cases "missing_field record required_fields")
  case (Some f)
  then show ?thesis by (simp add: missing_field_fails)
next
  case None
  then obtain username where u: "record ''username'' = Some username"
    by (rule required_present)
  obtain r tr where t: "process_csv_record_try env record stage = (r, tr)"
    by (cases "process_csv_record_try env record stage")
  from try_not_validated [OF None assms, of stage] t
  have "r \<noteq> Inr True" "filter is_adapter_event tr = []" by simp_all
  then show ?thesis
    using process_csv_record_cases [of "record" username env stage] u
    by (cases r) (auto simp: t)
qed

theorem missing_file_fails_witness:
  "process_csv_record demo_env (demo_record ''file'' ''./keepic.jpg'') ''dev'' =
     (Inr False, [LogError ''File not found: This is secret #1'']) \<and>
   process_csv_record demo_env (demo_record ''text'' ''./other.jpg'') ''dev'' =
     (Inr False, [LogError ''File not found: ./other.jpg''])"
  using missing_file_fails [of "demo_record ''file'' ''./keepic.jpg''" demo_env "''dev''"]
    missing_file_fails [of "demo_record ''text'' ''./other.jpg''" demo_env "''dev''"]
  by (simp add: run_defs)

text \<open>
  Claim C3 as stated fails for a path that exists and is not a file: with the
  directory \<^verbatim>\<open>.\<close> as \<^verbatim>\<open>keepic\<close>, \<^verbatim>\<open>Path.exists\<close> is true, the record passes validation,
  the submitter is constructed and used, and the result is true.
\<close>

theorem missing_file_fails_counterexample:
  "\<not> is_file demo_env ''.'' \<and>
   process_csv_record demo_env (demo_record ''text'' ''.'') ''dev'' =
     (Inr True,
      [NewSubmitter ''dev'' False, LogInfo ''Attempting to protect secret for user: user1'',
       Authenticate ''user1'' ''password1'',
       SubmitSecret \<lparr>name = ''Sample Secret 1'', type = ''text'', tag = [],
         text' = ''This is secret #1'', keepic_path = ''.''\<rparr>,
       LogInfo ''Successfully protected secret for user: user1'', ExitSubmitter])"
  by (simp add: run_defs)

lemma adapter_events:
  assumes ev: "ev \<in> set (snd (process_csv_record env record stage))" "is_adapter_event ev"
    and f: "record ''username'' = Some username" "record ''password'' = Some password"
    "record ''secret_type'' = Some secret_type" "record ''secret'' = Some secret"
    "record ''secret_desc'' = Some secret_desc" "record ''keepic'' = Some keepic"
  shows "ev \<in> {NewSubmitter stage False, ExitSubmitter, Authenticate username password,
               SubmitSecret \<lparr>name = secret_desc, type = secret_type, tag = '''',
                 text' = (if secret_type = ''text'' then secret else ''''),
                 keepic_path = keepic\<rparr>}"
  using try_events [OF process_csv_record_events [OF ev] ev(2), of username password
      secret_type secret secret_desc keepic] f
  by blast

lemma new_submitter_args:
  "NewSubmitter st headless \<in> set (snd (process_csv_record env record stage)) \<Longrightarrow>
   \<not> headless \<and> st = stage"
proof (cases "missing_field record required_fields")
  case (Some f)
  assume "NewSubmitter st headless \<in> set (snd (process_csv_record env record stage))"
  then show ?thesis using Some by (simp add: missing_field_fails)
next
  case None
  assume a: "NewSubmitter st headless \<in> set (snd (process_csv_record env record stage))"
  from None obtain username password secret_type secret secret_desc keepic where
    f: "record ''username'' = Some username" "record ''password'' = Some password"
    "record ''secret_type'' = Some secret_type" "record ''secret'' = Some secret"
    "record ''secret_desc'' = Some secret_desc" "record ''keepic'' = Some keepic"
    by (rule required_present)
  from adapter_events [OF a _ f] show ?thesis by simp
qed

lemma reaches_submitter:
  assumes "missing_field record required_fields = None"
    "record ''secret_type'' = Some secret_type" "record ''secret'' = Some secret"
    "record ''secret_desc'' = Some secret_desc" "record ''keepic'' = Some keepic"
    and "secret_type \<in> {''file'', ''image''} \<longrightarrow> path_exists env secret = Inr True"
    and "path_exists env keepic = Inr True"
  shows "\<exists>tr. snd (process_csv_record env record stage) = NewSubmitter stage False # tr"
proof -
  obtain tr where "snd (process_csv_record_try env record stage) = NewSubmitter stage False # tr"
    unfolding try_validated [OF assms] using with_submitter_starts by blast
  then show ?thesis
    using process_csv_record_keeps_trace [of env "record" stage] by auto
qed

lemma reaches_submit_secret:
  assumes "missing_field record required_fields = None"
    "record ''secret_type'' = Some secret_type" "record ''secret'' = Some secret"
    "record ''secret_desc'' = Some secret_desc" "record ''keepic'' = Some keepic"
    and "secret_type \<in> {''file'', ''image''} \<longrightarrow> path_exists env secret = Inr True"
    and "path_exists env keepic = Inr True"
    and u: "record ''username'' = Some username" "record ''password'' = Some password"
    and ok: "submitter_init env stage False = None"
      "authenticate env stage username password = Inr True"
  shows "SubmitSecret \<lparr>name = secret_desc, type = secret_type, tag = '''',
           text' = (if secret_type = ''text'' then secret else ''''), keepic_path = keepic\<rparr>
         \<in> set (snd (process_csv_record env record stage))"
proof -
  let ?sub = "\<lparr>name = secret_desc, type = secret_type, tag = '''',
           text' = (if secret_type = ''text'' then secret else ''''), keepic_path = keepic\<rparr>"
  have "SubmitSecret ?sub \<in> set (snd (submit_body env record stage ?sub))"
    using u ok(2) by (rule submit_body_submits)
  then have "SubmitSecret ?sub \<in> set (snd (process_csv_record_try env record stage))"
    unfolding try_validated [OF assms(1-7)]
    using with_submitter_runs_body [OF ok(1)] by blast
  then show ?thesis
    using process_csv_record_keeps_trace [of env "record" stage] by auto
qed

text \<open>
  Claim C7. For a record with its six fields present and not empty, every submission
  handed to \<^verbatim>\<open>submit_secret\<close> has \<^verbatim>\<open>name\<close> equal to \<^verbatim>\<open>secret_desc\<close>, \<^verbatim>\<open>type\<close> equal
  to \<^verbatim>\<open>secret_type\<close>, an empty \<^verbatim>\<open>tag\<close>, \<^verbatim>\<open>keepic_path\<close> equal to \<^verbatim>\<open>keepic\<close>, and
  \<^verbatim>\<open>text\<close> equal to \<^verbatim>\<open>secret\<close> exactly when the type is \<^verbatim>\<open>text\<close>, the empty string
  otherwise. When the files exist, the submitter starts and authentication succeeds,
  such a submission is handed over.
\<close>

theorem submission_projection:
  assumes "record ''username'' = Some username" "username \<noteq> ''''"
    "record ''password'' = Some password" "password \<noteq> ''''"
    "record ''secret_type'' = Some secret_type" "secret_type \<noteq> ''''"
    "record ''secret'' = Some secret" "secret \<noteq> ''''"
    "record ''secret_desc'' = Some secret_desc" "secret_desc \<noteq> ''''"
    "record ''keepic'' = Some keepic" "keepic \<noteq> ''''"
  shows "(\<forall>s. SubmitSecret s \<in> set (snd (process_csv_record env record stage)) \<longrightarrow>
            name s = secret_desc \<and> type s = secret_type \<and> tag s = '''' \<and>
            keepic_path s = keepic \<and>
            text' s = (if secret_type = ''text'' then secret else '''') \<and>
            (text' s = secret \<longleftrightarrow> secret_type = ''text'')) \<and>
         ((secret_type \<in> {''file'', ''image''} \<longrightarrow> path_exists env secret = Inr True) \<and>
          path_exists env keepic = Inr True \<and> submitter_init env stage False = None \<and>
          authenticate env stage username password = Inr True \<longrightarrow>
          (\<exists>s. SubmitSecret s \<in> set (snd (process_csv_record env record stage))))"
proof (intro conjI allI impI)
  fix s
  assume a: "SubmitSecret s \<in> set (snd (process_csv_record env record stage))"
  have "s = \<lparr>name = secret_desc, type = secret_type, tag = '''',
             text' = (if secret_type = ''text'' then secret else ''''), keepic_path = keepic\<rparr>"
    using adapter_events [OF a _ assms(1,3,5,7,9,11)] by simp
  then show "name s = secret_desc" "type s = secret_type" "tag s = ''''"
    "keepic_path s = keepic" "text' s = (if secret_type = ''text'' then secret else '''')"
    "text' s = secret \<longleftrightarrow> secret_type = ''text''"
    using assms(8) by auto
next
  assume ok: "(secret_type \<in> {''file'', ''image''} \<longrightarrow> path_exists env secret = Inr True) \<and>
          path_exists env keepic = Inr True \<and> submitter_init env stage False = None \<and>
          authenticate env stage username password = Inr True"
  have v: "missing_field record required_fields = None"
    using assms by (simp add: missing_field_None required_fields_def)
  show "\<exists>s. SubmitSecret s \<in> set (snd (process_csv_record env record stage))"
    using reaches_submit_secret [OF v assms(5,7,9,11) _ _ assms(1,3)] ok by blast
qed

theorem submission_projection_witness:
  "\<exists>s. SubmitSecret s
       \<in> set (snd (process_csv_record demo_env (demo_record ''text'' ''./keepic.jpg'') ''dev'')) \<and>
     name s = ''Sample Secret 1'' \<and> type s = ''text'' \<and> tag s = [] \<and>
     keepic_path s = ''./keepic.jpg'' \<and> text' s = ''This is secret #1''"
proof -
  let ?r = "demo_record ''text'' ''./keepic.jpg''"
  have f: "?r ''username'' = Some ''user1''"
    "?r ''password'' = Some ''password1''"
    "?r ''secret_type'' = Some ''text''"
    "?r ''secret'' = Some ''This is secret #1''"
    "?r ''secret_desc'' = Some ''Sample Secret 1''"
    "?r ''keepic'' = Some ''./keepic.jpg''"
    by (simp_all add: demo_record_def)
  have ok: "(''text'' \<in> {''file'', ''image''} \<longrightarrow>
        path_exists demo_env ''This is secret #1'' = Inr True) \<and>
      path_exists demo_env ''./keepic.jpg'' = Inr True \<and>
      submitter_init demo_env ''dev'' False = None \<and>
      authenticate demo_env ''dev'' ''user1'' ''password1'' = Inr True"
    by (simp add: demo_env_def)
  note p = submission_projection [OF f(1) _ f(2) _ f(3) _ f(4) _ f(5) _ f(6),
      of demo_env "''dev''", simplified]
  from p ok obtain s where
    "SubmitSecret s \<in> set (snd (process_csv_record demo_env ?r ''dev''))"
    by blast
  with p show ?thesis by blast
qed

text \<open>
  Claim C9. A record with its six fields present and not empty, an existing keepic
  file and a \<^verbatim>\<open>secret_type\<close> other than \<^verbatim>\<open>text\<close>, \<^verbatim>\<open>file\<close> and \<^verbatim>\<open>image\<close> passes
  validation: the first thing \<^verbatim>\<open>process_csv_record\<close> does is to construct the
  submitter, every submission it hands over has an empty \<^verbatim>\<open>text\<close> and the unknown
  type, and it does hand one over when the submitter starts and authentication
  succeeds.
\<close>

theorem unknown_secret_type_accepted:
  assumes "\<forall>f \<in> set required_fields. \<exists>v. record f = Some v \<and> v \<noteq> ''''"
    and "record ''secret_type'' = Some secret_type"
    and "secret_type \<notin> {''text'', ''file'', ''image''}"
    and "record ''keepic'' = Some keepic" "path_exists env keepic = Inr True"
  shows "missing_field record required_fields = None \<and>
         (\<exists>tr. snd (process_csv_record env record stage) = NewSubmitter stage False # tr) \<and>
         (\<forall>s. SubmitSecret s \<in> set (snd (process_csv_record env record stage)) \<longrightarrow>
            text' s = '''' \<and> type s = secret_type) \<and>
         (\<forall>username password.
            (record ''username'' = Some username \<and> record ''password'' = Some password) \<and>
            submitter_init env stage False = None \<and>
            authenticate env stage username password = Inr True \<longrightarrow>
            (\<exists>s. SubmitSecret s \<in> set (snd (process_csv_record env record stage))))"
proof -
  have v: "missing_field record required_fields = None"
    using assms(1) by (auto simp: missing_field_None not_falsy)
  then obtain username password st secret secret_desc k where
    f: "record ''username'' = Some username" "record ''password'' = Some password"
    "record ''secret_type'' = Some st" "record ''secret'' = Some secret"
    "record ''secret_desc'' = Some secret_desc" "record ''keepic'' = Some k"
    by (rule required_present)
  have st: "st = secret_type" and k: "k = keepic" using f assms(2,4) by simp_all
  have nf: "secret_type \<in> {''file'', ''image''} \<longrightarrow> path_exists env secret = Inr True"
    using assms(3) by simp
  have 1: "\<exists>tr. snd (process_csv_record env record stage) = NewSubmitter stage False # tr"
    using reaches_submitter [OF v f(3-6)] nf assms(5) st k by simp
  have 2: "text' s = '''' \<and> type s = secret_type"
    if "SubmitSecret s \<in> set (snd (process_csv_record env record stage))" for s
    using adapter_events [OF that _ f] assms(3) st by simp
  have 3: "\<exists>s. SubmitSecret s \<in> set (snd (process_csv_record env record stage))"
    if "record ''username'' = Some u" "record ''password'' = Some p"
      "submitter_init env stage False = None" "authenticate env stage u p = Inr True" for u p
    using reaches_submit_secret [OF v f(3-6) _ _ that] nf assms(5) st k by blast
  show ?thesis using v 1 2 3 by blast
qed

theorem unknown_secret_type_accepted_witness:
  "snd (process_csv_record demo_env (demo_record ''banana'' ''./keepic.jpg'') ''dev'') =
      [NewSubmitter ''dev'' False, LogInfo ''Attempting to protect secret for user: user1'',
       Authenticate ''user1'' ''password1'',
       SubmitSecret \<lparr>name = ''Sample Secret 1'', type = ''banana'', tag = '''', text' = '''',
         keepic_path = ''./keepic.jpg''\<rparr>, ExitSubmitter,
       LogError ''Error processing record for user user1: upload failed''] \<and>
   missing_field (demo_record ''banana'' ''./keepic.jpg'') required_fields = None"
proof -
  have h: "\<forall>f \<in> set required_fields.
      \<exists>v. demo_record ''banana'' ''./keepic.jpg'' f = Some v \<and> v \<noteq> ''''"
    by (simp add: required_fields_def demo_record_def)
  have run: "snd (process_csv_record demo_env (demo_record ''banana'' ''./keepic.jpg'') ''dev'') =
      [NewSubmitter ''dev'' False, LogInfo ''Attempting to protect secret for user: user1'',
       Authenticate ''user1'' ''password1'',
       SubmitSecret \<lparr>name = ''Sample Secret 1'', type = ''banana'', tag = '''', text' = '''',
         keepic_path = ''./keepic.jpg''\<rparr>, ExitSubmitter,
       LogError ''Error processing record for user user1: upload failed'']"
    by (simp add: run_defs)
  have st: "demo_record ''banana'' ''./keepic.jpg'' ''secret_type'' = Some ''banana''"
    and k: "demo_record ''banana'' ''./keepic.jpg'' ''keepic'' = Some ''./keepic.jpg''"
    by (simp_all add: demo_record_def)
  have ne: "''banana'' \<notin> {''text'', ''file'', ''image''}" by simp
  have pe: "path_exists demo_env ''./keepic.jpg'' = Inr True"
    by (simp add: demo_env_def)
  from unknown_secret_type_accepted [OF h st ne k pe, of "''dev''"]
  have "missing_field (demo_record ''banana'' ''./keepic.jpg'') required_fields = None"
    by (rule conjunct1)
  with run show ?thesis by simp
qed

section \<open>Properties of the batch runner\<close>

lemma process_csv_record_returns: "\<exists>b. fst (process_csv_record env record stage) = Inr b"
proof (cases "missing_field record required_fields")
  case (Some f)
  then show ?thesis
    using missing_field_fails [of "record" f env stage] by auto
next
  case None
  then obtain username where u: "record ''username'' = Some username"
    by (rule required_present)
  show ?thesis
    using u process_csv_record_cases [of "record" username env stage]
    by (auto split: prod.splits sum.splits)
qed

lemma as_completed_mset: "mset (as_completed choices tasks) = mset tasks"
proof (induction choices tasks rule: as_completed.induct)
  case (3 c choices t ts)
  let ?tasks = "t # ts"
  let ?i = "c mod length ?tasks"
  have i: "?i < length ?tasks" by simp
  have "mset ?tasks = mset (take ?i ?tasks @ ?tasks ! ?i # drop (Suc ?i) ?tasks)"
    using id_take_nth_drop [OF i] by simp
  also have "\<dots> = add_mset (?tasks ! ?i) (mset (take ?i ?tasks @ drop (Suc ?i) ?tasks))"
    by simp
  finally show ?case using "3.IH" [of ?i] by (simp add: Let_def)
qed simp_all

lemma as_completed_length: "length (as_completed choices tasks) = length tasks"
  using as_completed_mset [of choices tasks] by (metis size_mset)

lemma run_tasks_permits:
  "0 < n \<Longrightarrow>
   run_tasks env stage n records =
     Some (map (\<lambda>record. process_csv_record env record stage) records)"
  by (induction records) (simp_all add: Let_def acquire_def release_def)

lemma run_tasks_blocked:
  "run_tasks env stage 0 records = (if records = [] then Some [] else None)"
  by (cases records) (simp_all add: acquire_def)

lemma as_completed_Nil: "as_completed choices tasks = [] \<longleftrightarrow> tasks = []"
  by (cases choices; cases tasks) (simp_all add: Let_def)

text \<open>With a semaphore of size zero and a record to process, the run never returns.\<close>

lemma zero_permits_hang:
  assumes "read_csv env csv_file = Inr records" "records \<noteq> []"
  shows "process_secrets_file env csv_file 0 stage choices = Hangs"
  using assms
  by (simp add: process_secrets_file_def process_secrets_file_try_def run_tasks_blocked
      as_completed_Nil)

lemma consume_counts:
  assumes "\<forall>r \<in> set rs. \<exists>b. r = Inr b"
  shows "\<exists>logged'. consume rs completed results logged =
     (None,
      results\<lparr>success := success results + length (filter (\<lambda>r. r = Inr True) rs),
              failed := failed results + length (filter (\<lambda>r. r \<noteq> Inr True) rs)\<rparr>,
      logged')"
  using assms
proof (induction rs arbitrary: completed results logged)
  case Nil
  then show ?case by simp
next
  case (Cons r rs)
  then obtain b where b: "r = Inr b" by auto
  from Cons.prems have rest: "\<forall>r \<in> set rs. \<exists>b. r = Inr b" by simp
  show ?case
  proof (cases b)
    case True
    from Cons.IH [OF rest, of "completed + 1" "results\<lparr>success := success results + 1\<rparr>"
        "logged @ [LogInfo (progress_line (completed + 1)
           (results\<lparr>success := success results + 1\<rparr>))]"]
    show ?thesis using b True by (auto simp: Let_def)
  next
    case False
    from Cons.IH [OF rest, of "completed + 1" "results\<lparr>failed := failed results + 1\<rparr>"
        "logged @ [LogInfo (progress_line (completed + 1)
           (results\<lparr>failed := failed results + 1\<rparr>))]"]
    show ?thesis using b False by (auto simp: Let_def)
  qed
qed

lemma filter_length_mset:
  "mset xs = mset ys \<Longrightarrow> length (filter P xs) = length (filter P ys)"
  by (metis mset_filter size_mset)

lemma batch_completes:
  assumes "1 \<le> max_concurrent" "read_csv env csv_file = Inr records"
  shows "\<exists>logged. process_secrets_file_try env csv_file max_concurrent stage choices results =
     (Completed,
      \<lparr>counters = \<lparr>total = length records,
          success = success results + length (filter
            (\<lambda>record. fst (process_csv_record env record stage) = Inr True) records),
          failed = failed results + length (filter
            (\<lambda>record. fst (process_csv_record env record stage) \<noteq> Inr True) records)\<rparr>,
       batch_log = logged,
       task_traces = map (\<lambda>record. snd (process_csv_record env record stage))
                       (as_completed choices records)\<rparr>)"
proof -
  let ?order = "as_completed choices records"
  let ?runs = "map (\<lambda>record. process_csv_record env record stage) ?order"
  have p: "0 < nat max_concurrent" using assms(1) by simp
  have runs: "run_tasks env stage (nat max_concurrent) ?order = Some ?runs"
    using p by (rule run_tasks_permits)
  have all: "\<forall>r \<in> set (map fst ?runs). \<exists>b. r = Inr b"
    using process_csv_record_returns by auto
  obtain logged where c: "consume (map fst ?runs) 0 (results\<lparr>total := length records\<rparr>) [] =
     (None,
      results\<lparr>total := length records,
        success := success results + length (filter (\<lambda>r. r = Inr True) (map fst ?runs)),
        failed := failed results + length (filter (\<lambda>r. r \<noteq> Inr True) (map fst ?runs))\<rparr>,
      logged)"
    using consume_counts [OF all, of 0 "results\<lparr>total := length records\<rparr>" "[]"] by auto
  have s: "length (filter (\<lambda>r. r = Inr True) (map fst ?runs)) =
      length (filter (\<lambda>record. fst (process_csv_record env record stage) = Inr True) records)"
    using filter_length_mset [OF as_completed_mset [of choices records]]
    by (simp add: filter_map comp_def)
  have f: "length (filter (\<lambda>r. r \<noteq> Inr True) (map fst ?runs)) =
      length (filter (\<lambda>record. fst (process_csv_record env record stage) \<noteq> Inr True) records)"
    using filter_length_mset [OF as_completed_mset [of choices records]]
    by (simp add: filter_map comp_def)
  show ?thesis
    using assms runs c s f
    by (simp add: process_secrets_file_try_def Let_def comp_def)
qed

text \<open>
  Claim C1, as the code has it. When the semaphore can be built with at least one
  permit (\<open>1 \<le> max_concurrent\<close>), the run returns and its counters satisfy
  \<open>success + failed = total\<close>. When the file has been read, \<open>total\<close> is the number of
  records, \<open>success\<close> the number of records whose processing returned true,
  \<open>failed\<close> the number of all the others, those whose processing raised included, and
  every record has been run. This holds for every completion order.
\<close>

theorem counters_add_up:
  assumes "1 \<le> max_concurrent"
  shows "\<exists>run. process_secrets_file env csv_file max_concurrent stage choices = Returned run \<and>
           success (counters run) + failed (counters run) = total (counters run) \<and>
           (\<forall>records. read_csv env csv_file = Inr records \<longrightarrow>
              total (counters run) = length records \<and>
              success (counters run) = length (filter
                (\<lambda>record. fst (process_csv_record env record stage) = Inr True) records) \<and>
              failed (counters run) = length (filter
                (\<lambda>record. fst (process_csv_record env record stage) \<noteq> Inr True) records) \<and>
              length (task_traces run) = length records)"
proof (cases "read_csv env csv_file")
  case (Inl e)
  then show ?thesis
    by (simp add: process_secrets_file_def process_secrets_file_try_def)
next
  case (Inr records)
  obtain logged where "process_secrets_file_try env csv_file max_concurrent stage choices
      \<lparr>total = 0, success = 0, failed = 0\<rparr> =
     (Completed,
      \<lparr>counters = \<lparr>total = length records,
          success = 0 + length (filter
            (\<lambda>record. fst (process_csv_record env record stage) = Inr True) records),
          failed = 0 + length (filter
            (\<lambda>record. fst (process_csv_record env record stage) \<noteq> Inr True) records)\<rparr>,
       batch_log = logged,
       task_traces = map (\<lambda>record. snd (process_csv_record env record stage))
                       (as_completed choices records)\<rparr>)"
    using batch_completes [OF assms Inr, of stage choices
        "\<lparr>total = 0, success = 0, failed = 0\<rparr>"]
    by auto
  then show ?thesis
    using Inr sum_length_filter_compl
      [of "\<lambda>record. fst (process_csv_record env record stage) = Inr True" records]
    by (simp add: process_secrets_file_def as_completed_length)
qed

lemmas batch_defs = process_secrets_file_def process_secrets_file_try_def demo_batch_env_def
  demo_env_def

text \<open>
  Claim C1 as stated fails for a negative \<open>max_concurrent\<close>: the constructor of the
  semaphore raises after \<open>total\<close> has been set, the handler of
  \<^verbatim>\<open>process_secrets_file\<close> logs the error, and the function returns \<open>total = 1\<close>
  with \<open>success = 0\<close> and \<open>failed = 0\<close>.
\<close>

theorem counters_add_up_counterexample:
  "process_secrets_file (demo_batch_env [demo_record ''text'' ''./keepic.jpg''])
      ''secrets.csv'' (- 1) ''dev'' [] =
     Returned \<lparr>counters = \<lparr>total = 1, success = 0, failed = 0\<rparr>,
       batch_log = [LogError ''Error processing CSV file: Semaphore initial value must be >= 0''],
       task_traces = []\<rparr>"
  by (simp add: batch_defs)

theorem counters_add_up_witness:
  "\<exists>run. process_secrets_file
       (demo_batch_env [demo_record ''text'' ''./keepic.jpg'',
          demo_record ''banana'' ''./keepic.jpg'', demo_record ''file'' ''./keepic.jpg''])
       ''secrets.csv'' 1 ''dev'' [5, 3] = Returned run \<and>
     success (counters run) + failed (counters run) = 3 \<and> total (counters run) = 3"
proof -
  let ?records = "[demo_record ''text'' ''./keepic.jpg'',
          demo_record ''banana'' ''./keepic.jpg'', demo_record ''file'' ''./keepic.jpg'']"
  have h1: "(1::int) \<le> 1" by simp
  have h2: "read_csv (demo_batch_env ?records) ''secrets.csv'' = Inr ?records"
    by (simp add: demo_batch_env_def)
  from counters_add_up [OF h1, of "demo_batch_env ?records" "''secrets.csv''" "''dev''" "[5, 3]"]
    h2
  show ?thesis by auto
qed

text \<open>
  Claim C5. \<^verbatim>\<open>process_secrets_file\<close> never raises. When reading the CSV file raises,
  it returns the counters all zero and has logged the error; more generally, whenever
  its \<^verbatim>\<open>try\<close> block raises, it logs the error and returns the counters as they were.
\<close>

theorem file_error_caught:
  "(\<forall>e. process_secrets_file env csv_file max_concurrent stage choices \<noteq> Raised e) \<and>
   (\<forall>e. read_csv env csv_file = Inl e \<longrightarrow>
      process_secrets_file env csv_file max_concurrent stage choices =
        Returned \<lparr>counters = \<lparr>total = 0, success = 0, failed = 0\<rparr>,
          batch_log = [LogError (''Error processing CSV file: '' @ exn_str e)],
          task_traces = []\<rparr>) \<and>
   (\<forall>e run. process_secrets_file_try env csv_file max_concurrent stage choices
               \<lparr>total = 0, success = 0, failed = 0\<rparr> = (Failed e, run) \<longrightarrow>
      process_secrets_file env csv_file max_concurrent stage choices =
        Returned (run\<lparr>batch_log := batch_log run
                       @ [LogError (''Error processing CSV file: '' @ exn_str e)]\<rparr>))"
proof (intro conjI allI impI)
  fix e
  show "process_secrets_file env csv_file max_concurrent stage choices \<noteq> Raised e"
    by (simp add: process_secrets_file_def split: prod.splits try_result.splits)
next
  fix e
  assume "read_csv env csv_file = Inl e"
  then show "process_secrets_file env csv_file max_concurrent stage choices =
        Returned \<lparr>counters = \<lparr>total = 0, success = 0, failed = 0\<rparr>,
          batch_log = [LogError (''Error processing CSV file: '' @ exn_str e)],
          task_traces = []\<rparr>"
    by (simp add: process_secrets_file_def process_secrets_file_try_def)
next
  fix e run
  assume "process_secrets_file_try env csv_file max_concurrent stage choices
               \<lparr>total = 0, success = 0, failed = 0\<rparr> = (Failed e, run)"
  then show "process_secrets_file env csv_file max_concurrent stage choices =
        Returned (run\<lparr>batch_log := batch_log run
                       @ [LogError (''Error processing CSV file: '' @ exn_str e)]\<rparr>)"
    by (simp add: process_secrets_file_def)
qed

theorem file_error_caught_witness:
  "read_csv demo_env ''missing.csv'' = Inl (Exception ''No such file'') \<and>
   process_secrets_file demo_env ''missing.csv'' 3 ''dev'' [] =
     Returned \<lparr>counters = \<lparr>total = 0, success = 0, failed = 0\<rparr>,
       batch_log = [LogError ''Error processing CSV file: No such file''],
       task_traces = []\<rparr>"
proof -
  have h: "read_csv demo_env ''missing.csv'' = Inl (Exception ''No such file'')"
    by (simp add: demo_env_def)
  from file_error_caught [of demo_env "''missing.csv''" 3 "''dev''" "[]"] h
  show ?thesis by simp
qed

lemma batch_never_aborted:
  "fst (consume (map (\<lambda>record. fst (process_csv_record env record stage)) records)
          completed results logged) = None"
proof -
  have "\<forall>r \<in> set (map (\<lambda>record. fst (process_csv_record env record stage)) records).
      \<exists>b. r = Inr b"
    using process_csv_record_returns by auto
  from consume_counts [OF this, of completed results logged] show ?thesis by auto
qed

text \<open>
  Claim C4. \<^verbatim>\<open>process_csv_record\<close> always returns a boolean: no exception leaves it.
  Whenever the \<^verbatim>\<open>try\<close> block raises, at any point (validation, construction of the
  submitter, authentication, submission, leaving the \<^verbatim>\<open>with\<close> block), the record has a
  username, the function logs the error with that username after what was done so far
  and returns false. Hence the loop over the results of a batch never meets an
  exception and is never cut short.
\<close>

theorem record_exception_caught:
  "(\<exists>b. fst (process_csv_record env record stage) = Inr b) \<and>
   (\<forall>e tr. process_csv_record_try env record stage = (Inl e, tr) \<longrightarrow>
      (\<exists>username. record ''username'' = Some username \<and>
         process_csv_record env record stage =
           (Inr False, tr @ [LogError (''Error processing record for user '' @ username
                                      @ '': '' @ exn_str e)]))) \<and>
   (\<forall>records completed results logged.
      fst (consume (map (\<lambda>record. fst (process_csv_record env record stage)) records)
             completed results logged) = None)"
proof (intro conjI allI impI)
  show "\<exists>b. fst (process_csv_record env record stage) = Inr b"
    by (rule process_csv_record_returns)
next
  fix e tr
  assume t: "process_csv_record_try env record stage = (Inl e, tr)"
  have "missing_field record required_fields = None"
  proof (cases "missing_field record required_fields")
    case (Some f)
    then show ?thesis using t
      by (simp add: process_csv_record_try_def comp_simps ret_def)
  qed simp
  then obtain username where u: "record ''username'' = Some username"
    by (rule required_present)
  show "\<exists>username. record ''username'' = Some username \<and>
         process_csv_record env record stage =
           (Inr False, tr @ [LogError (''Error processing record for user '' @ username
                                      @ '': '' @ exn_str e)])"
    using u t process_csv_record_cases [of "record" username env stage] by simp
next
  fix records completed results logged
  show "fst (consume (map (\<lambda>record. fst (process_csv_record env record stage)) records)
             completed results logged) = None"
    by (rule batch_never_aborted)
qed

theorem record_exception_caught_witness:
  "process_csv_record_try demo_env (demo_record ''banana'' ''./keepic.jpg'') ''dev'' =
     (Inl (Exception ''upload failed''),
      [NewSubmitter ''dev'' False, LogInfo ''Attempting to protect secret for user: user1'',
       Authenticate ''user1'' ''password1'',
       SubmitSecret \<lparr>name = ''Sample Secret 1'', type = ''banana'', tag = '''', text' = '''',
         keepic_path = ''./keepic.jpg''\<rparr>, ExitSubmitter]) \<and>
   process_csv_record demo_env (demo_record ''banana'' ''./keepic.jpg'') ''dev'' =
     (Inr False,
      [NewSubmitter ''dev'' False, LogInfo ''Attempting to protect secret for user: user1'',
       Authenticate ''user1'' ''password1'',
       SubmitSecret \<lparr>name = ''Sample Secret 1'', type = ''banana'', tag = '''', text' = '''',
         keepic_path = ''./keepic.jpg''\<rparr>, ExitSubmitter,
       LogError ''Error processing record for user user1: upload failed''])"
proof -
  have t: "process_csv_record_try demo_env (demo_record ''banana'' ''./keepic.jpg'') ''dev'' =
     (Inl (Exception ''upload failed''),
      [NewSubmitter ''dev'' False, LogInfo ''Attempting to protect secret for user: user1'',
       Authenticate ''user1'' ''password1'',
       SubmitSecret \<lparr>name = ''Sample Secret 1'', type = ''banana'', tag = '''', text' = '''',
         keepic_path = ''./keepic.jpg''\<rparr>, ExitSubmitter])"
    by (simp add: run_defs)
  have u: "demo_record ''banana'' ''./keepic.jpg'' ''username'' = Some ''user1''"
    by (simp add: demo_record_def)
  from record_exception_caught [of demo_env "demo_record ''banana'' ''./keepic.jpg''" "''dev''"]
    t u
  show ?thesis by auto
qed

lemma run_tasks_Some:
  "run_tasks env stage n records = Some runs \<Longrightarrow>
   runs = map (\<lambda>record. process_csv_record env record stage) records"
  by (induction records arbitrary: runs n)
     (auto simp: Let_def split: if_splits option.splits)

lemma try_task_traces:
  assumes "tr \<in> set (task_traces (snd (process_secrets_file_try env csv_file max_concurrent
             stage choices results)))"
  shows "\<exists>record. tr = snd (process_csv_record env record stage)"
proof (cases "read_csv env csv_file")
  case (Inl e)
  then show ?thesis using assms by (simp add: process_secrets_file_try_def)
next
  case (Inr records)
  show ?thesis
  proof (cases "run_tasks env stage (nat max_concurrent) (as_completed choices records)")
    case None
    then show ?thesis using assms Inr
      by (simp add: process_secrets_file_try_def Let_def split: if_splits)
  next
    case (Some runs)
    from run_tasks_Some [OF Some]
    have "set (map snd runs) \<subseteq> range (\<lambda>record. snd (process_csv_record env record stage))"
      by auto
    then show ?thesis using assms Inr Some
      by (auto simp: process_secrets_file_try_def Let_def split: if_splits prod.splits)
  qed
qed

lemma task_traces_are_records:
  assumes "process_secrets_file env csv_file max_concurrent stage choices = Returned run"
    "tr \<in> set (task_traces run)"
  shows "\<exists>record. tr = snd (process_csv_record env record stage)"
proof -
  obtain t r where t: "process_secrets_file_try env csv_file max_concurrent stage choices
      \<lparr>total = 0, success = 0, failed = 0\<rparr> = (t, r)"
    by (cases "process_secrets_file_try env csv_file max_concurrent stage choices
      \<lparr>total = 0, success = 0, failed = 0\<rparr>")
  with assms(1) have "task_traces run = task_traces r"
    by (cases t) (auto simp: process_secrets_file_def)
  with assms(2) t try_task_traces [of tr env csv_file max_concurrent stage choices
      "\<lparr>total = 0, success = 0, failed = 0\<rparr>"]
  show ?thesis by simp
qed

text \<open>
  Claim C10. Whenever \<^verbatim>\<open>process_csv_record\<close> constructs the submitter, it does so with
  \<^verbatim>\<open>headless\<close> false and the stage it was given; and every submitter constructed in a
  run of \<^verbatim>\<open>process_secrets_file\<close> is constructed there, whatever the file, the
  stage and the concurrency bound.
\<close>

theorem submitter_never_headless:
  "(NewSubmitter st headless \<in> set (snd (process_csv_record env record stage)) \<longrightarrow>
      \<not> headless \<and> st = stage) \<and>
   (\<forall>run tr. process_secrets_file env csv_file max_concurrent stage choices = Returned run \<and>
      tr \<in> set (task_traces run) \<and> NewSubmitter st headless \<in> set tr \<longrightarrow>
      \<not> headless \<and> st = stage)"
proof -
  have one: "\<not> headless \<and> st = stage"
    if "NewSubmitter st headless \<in> set (snd (process_csv_record env r stage))" for r
    using that by (rule new_submitter_args)
  have "\<not> headless \<and> st = stage"
    if a: "process_secrets_file env csv_file max_concurrent stage choices = Returned run \<and>
      tr \<in> set (task_traces run) \<and> NewSubmitter st headless \<in> set tr" for run tr
  proof -
    from a obtain r where "tr = snd (process_csv_record env r stage)"
      using task_traces_are_records by blast
    with a show ?thesis using one [of r] by simp
  qed
  with one [of "record"] show ?thesis by blast
qed

theorem submitter_never_headless_witness:
  "NewSubmitter ''prod'' False \<in>
     set (snd (process_csv_record demo_env (demo_record ''text'' ''./keepic.jpg'') ''prod''))"
proof -
  have "snd (process_csv_record demo_env (demo_record ''text'' ''./keepic.jpg'') ''prod'') =
    [NewSubmitter ''prod'' False, LogInfo ''Attempting to protect secret for user: user1'',
     Authenticate ''user1'' ''password1'',
     SubmitSecret \<lparr>name = ''Sample Secret 1'', type = ''text'', tag = [],
       text' = ''This is secret #1'', keepic_path = ''./keepic.jpg''\<rparr>,
     LogInfo ''Successfully protected secret for user: user1'', ExitSubmitter]"
    by (simp add: run_defs)
  then show ?thesis
    using submitter_never_headless [of "''prod''" False demo_env
      "demo_record ''text'' ''./keepic.jpg''" "''prod''" "''secrets.csv''" 3 "[]"]
    by simp
qed

section \<open>Properties of the semaphore\<close>

lemma timeline_runs:
  "run_tasks env stage n records = Some runs \<Longrightarrow>
   timeline env stage n i records =
     Some (concat (map (\<lambda>(j, tr). (j, Acquired) # map (\<lambda>ev. (j, Did ev)) tr @ [(j, Released)])
                       (enumerate i (map snd runs))))"
proof (induction records arbitrary: runs n i)
  case Nil
  then show ?case by simp
next
  case (Cons x rest)
  from Cons.prems obtain held later where
    h: "acquire n = Some held" and
    l: "run_tasks env stage (release held) rest = Some later" and
    r: "runs = process_csv_record env x stage # later"
    by (auto simp: Let_def split: option.splits)
  from Cons.IH [OF l, of "Suc i"] h show ?case
    by (simp add: r Let_def)
qed

lemma moments_append:
  "set (moments m (a @ b)) = set (moments m a) \<union> set (moments (foldl after_tick m a) b)"
proof (induction a arbitrary: m)
  case Nil
  then show ?case by (cases b) auto
next
  case (Cons t a)
  then show ?case by auto
qed

lemma task_body_moments:
  assumes "past = [] \<or> past = [i]"
  shows "set (moments ([i], past) (map (\<lambda>ev. (i, Did ev)) tr @ [(i, Released)]))
           \<subseteq> {([i], []), ([i], [i]), ([], [])} \<and>
         foldl after_tick ([i], past) (map (\<lambda>ev. (i, Did ev)) tr @ [(i, Released)]) = ([], [])"
  using assms
proof (induction tr arbitrary: past)
  case Nil
  then show ?case by auto
next
  case (Cons ev tr)
  let ?past = "if is_authenticate ev \<and> i \<notin> set past then i # past else past"
  have p: "?past = [] \<or> ?past = [i]" using Cons.prems by auto
  from Cons.IH [OF p] Cons.prems show ?case by auto
qed

lemma task_moments:
  "set (moments ([], []) ((i, Acquired) # map (\<lambda>ev. (i, Did ev)) tr @ [(i, Released)]))
     \<subseteq> {([], []), ([i], []), ([i], [i])} \<and>
   foldl after_tick ([], []) ((i, Acquired) # map (\<lambda>ev. (i, Did ev)) tr @ [(i, Released)])
     = ([], [])"
  using task_body_moments [of "[]" i tr] by auto

lemma one_task_at_a_time:
  "m \<in> set (moments ([], [])
      (concat (map (\<lambda>(j, tr). (j, Acquired) # map (\<lambda>ev. (j, Did ev)) tr @ [(j, Released)])
         (enumerate i traces)))) \<Longrightarrow>
   length (fst m) \<le> 1 \<and> length (snd m) \<le> length (fst m)"
proof (induction traces arbitrary: i)
  case Nil
  then show ?case by simp
next
  case (Cons tr traces)
  let ?seg = "(i, Acquired) # map (\<lambda>ev. (i, Did ev)) tr @ [(i, Released)]"
  let ?rest = "concat (map (\<lambda>(j, tr). (j, Acquired) # map (\<lambda>ev. (j, Did ev)) tr @ [(j, Released)])
         (enumerate (Suc i) traces))"
  from Cons.prems have "m \<in> set (moments ([], []) (?seg @ ?rest))" by simp
  then have "m \<in> set (moments ([], []) ?seg) \<or> m \<in> set (moments ([], []) ?rest)"
    unfolding moments_append using task_moments [of i tr] by auto
  then show ?case
  proof
    assume "m \<in> set (moments ([], []) ?seg)"
    with task_moments [of i tr] have "m \<in> {([], []), ([i], []), ([i], [i])}" by blast
    then show ?thesis by auto
  next
    assume "m \<in> set (moments ([], []) ?rest)"
    then show ?thesis by (rule Cons.IH)
  qed
qed

text \<open>
  Claim C6. A batch run with at least one permit returns, and its run in time is the
  sequence of its tasks, each taking its permit, doing what its trace says and giving
  the permit back. At every moment of it the number of tasks inside
  \<^verbatim>\<open>async with semaphore\<close> is at most \<open>max_concurrent\<close>, and the tasks that have
  called \<^verbatim>\<open>authenticate\<close> are among them: with \<open>max_concurrent = 1\<close> at most one
  record is at or past the authenticate step at any time.
\<close>

theorem semaphore_bounds_in_flight:
  assumes "1 \<le> max_concurrent" "read_csv env csv_file = Inr records"
  shows "\<exists>run tl.
     process_secrets_file env csv_file max_concurrent stage choices = Returned run \<and>
     timeline env stage (nat max_concurrent) 0 (as_completed choices records) = Some tl \<and>
     tl = concat (map (\<lambda>(i, tr). (i, Acquired) # map (\<lambda>ev. (i, Did ev)) tr @ [(i, Released)])
                      (enumerate 0 (task_traces run))) \<and>
     (\<forall>m \<in> set (moments ([], []) tl).
        length (fst m) \<le> nat max_concurrent \<and> length (snd m) \<le> length (fst m) \<and>
        (max_concurrent = 1 \<longrightarrow> length (snd m) \<le> 1))"
proof -
  let ?order = "as_completed choices records"
  let ?runs = "map (\<lambda>record. process_csv_record env record stage) ?order"
  let ?tl = "concat (map (\<lambda>(i, tr). (i, Acquired) # map (\<lambda>ev. (i, Did ev)) tr @ [(i, Released)])
                      (enumerate 0 (map snd ?runs)))"
  obtain logged cs where t: "process_secrets_file_try env csv_file max_concurrent stage choices
      \<lparr>total = 0, success = 0, failed = 0\<rparr> =
     (Completed, \<lparr>counters = cs, batch_log = logged,
        task_traces = map (\<lambda>record. snd (process_csv_record env record stage)) ?order\<rparr>)"
    using batch_completes [OF assms, of stage choices "\<lparr>total = 0, success = 0, failed = 0\<rparr>"]
    by auto
  have p: "0 < nat max_concurrent" using assms(1) by simp
  have r: "run_tasks env stage (nat max_concurrent) ?order = Some ?runs"
    using p by (rule run_tasks_permits)
  have tl: "timeline env stage (nat max_concurrent) 0 ?order = Some ?tl"
    using r by (rule timeline_runs)
  have b: "length (fst m) \<le> nat max_concurrent \<and> length (snd m) \<le> length (fst m) \<and>
        (max_concurrent = 1 \<longrightarrow> length (snd m) \<le> 1)"
    if "m \<in> set (moments ([], []) ?tl)" for m
    using one_task_at_a_time [OF that] p by auto
  show ?thesis
    using t tl b by (simp add: process_secrets_file_def comp_def)
qed

theorem semaphore_bounds_in_flight_witness:
  "\<exists>tl. timeline (demo_batch_env [demo_record ''text'' ''./keepic.jpg'',
              demo_record '''' ''./keepic.jpg'']) ''dev'' 1 0
            [demo_record ''text'' ''./keepic.jpg'', demo_record '''' ''./keepic.jpg''] = Some tl \<and>
     ([0], [0]) \<in> set (moments ([], []) tl) \<and>
     list_all (\<lambda>m. length (fst m) \<le> 1 \<and> length (snd m) \<le> 1) (moments ([], []) tl)"
proof -
  let ?records = "[demo_record ''text'' ''./keepic.jpg'', demo_record '''' ''./keepic.jpg'']"
  let ?env = "demo_batch_env ?records"
  have h1: "(1::int) \<le> 1" by simp
  have h2: "read_csv ?env ''secrets.csv'' = Inr ?records"
    by (simp add: demo_batch_env_def)
  have tl: "timeline ?env ''dev'' 1 0 ?records =
     Some [(0, Acquired), (0, Did (NewSubmitter ''dev'' False)),
           (0, Did (LogInfo ''Attempting to protect secret for user: user1'')),
           (0, Did (Authenticate ''user1'' ''password1'')),
           (0, Did (SubmitSecret \<lparr>name = ''Sample Secret 1'', type = ''text'', tag = [],
              text' = ''This is secret #1'', keepic_path = ''./keepic.jpg''\<rparr>)),
           (0, Did (LogInfo ''Successfully protected secret for user: user1'')),
           (0, Did ExitSubmitter), (0, Released),
           (1, Acquired), (1, Did (LogError ''Missing required field: secret_type'')),
           (1, Released)]"
    by (simp add: run_defs demo_batch_env_def acquire_def release_def)
  from semaphore_bounds_in_flight [OF h1 h2, of "''dev''" "[]"]
  obtain tl' where
    1: "timeline ?env ''dev'' (nat 1) 0 (as_completed [] ?records) = Some tl'" and
    2: "\<forall>m \<in> set (moments ([], []) tl').
          length (fst m) \<le> nat 1 \<and> length (snd m) \<le> length (fst m) \<and>
          ((1::int) = 1 \<longrightarrow> length (snd m) \<le> 1)"
    by blast
  from 2 have 3: "list_all (\<lambda>m. length (fst m) \<le> 1 \<and> length (snd m) \<le> 1)
      (moments ([], []) tl')"
    by (simp add: list_all_iff)
  from 1 tl have e: "tl' = [(0, Acquired), (0, Did (NewSubmitter ''dev'' False)),
           (0, Did (LogInfo ''Attempting to protect secret for user: user1'')),
           (0, Did (Authenticate ''user1'' ''password1'')),
           (0, Did (SubmitSecret \<lparr>name = ''Sample Secret 1'', type = ''text'', tag = [],
              text' = ''This is secret #1'', keepic_path = ''./keepic.jpg''\<rparr>)),
           (0, Did (LogInfo ''Successfully protected secret for user: user1'')),
           (0, Did ExitSubmitter), (0, Released),
           (1, Acquired), (1, Did (LogError ''Missing required field: secret_type'')),
           (1, Released)]"
    by simp
  have 4: "([0], [0]) \<in> set (moments ([], []) tl')"
    unfolding e by simp
  from 1 3 4 show ?thesis by simp
qed

section \<open>Properties of the sample generator\<close>















end
